theory Spec2Isabelle
  imports Main
begin

section \<open>AtomVM: the State256 virtual machine of atomvm.py\<close>

text \<open>
  Python's \<open>str\<close> is modelled as \<open>string\<close> holding the UTF-8 bytes of the text.
  Concatenation, equality and splitting at the ASCII character \<open>.\<close> agree on both
  views, and these are the only string operations of the program. The sign of the empty
  leaf (the letter O with stroke, U+00D8) is the two bytes C3 98.
\<close>

subsection \<open>Values\<close>

text \<open>
  A value is \<open>Union[str, int, float]\<close>. The program stores and copies floats and
  formats them inside \<open>pair\<close>, nothing else; the float type is the parameter \<open>'f\<close>
  and its formatting a parameter of \<open>pair\<close>.
\<close>

datatype 'f val = VStr string | VInt int | VFloat 'f

definition EMPTY :: "'f val" where
  "EMPTY = VStr [CHR 0xC3, CHR 0x98]"

subsection \<open>Dimension\<close>

datatype Dimension =
  ATOM1 | RELATION2 | LOGIC4 | CLOSURE8 | RECORD16 | BLOCK32 | CONTEXT64 | FRAME128 | STATE256

fun dimension_value :: "Dimension \<Rightarrow> nat" where
  "dimension_value ATOM1 = 1"
| "dimension_value RELATION2 = 2"
| "dimension_value LOGIC4 = 4"
| "dimension_value CLOSURE8 = 8"
| "dimension_value RECORD16 = 16"
| "dimension_value BLOCK32 = 32"
| "dimension_value CONTEXT64 = 64"
| "dimension_value FRAME128 = 128"
| "dimension_value STATE256 = 256"

subsection \<open>AtomPath\<close>

text \<open>
  The dataclass \<open>AtomPath\<close>. The fields \<open>context\<close> and \<open>record\<close> carry the suffix
  \<open>_seg\<close>, the plain names being reserved words of the theory language.
\<close>

record AtomPath =
  frame :: string
  context_seg :: string
  block :: string
  record_seg :: string
  closure :: string
  logic :: string
  relation :: string
  atom :: string

text \<open>
  \<open>path_str.split('.')\<close>: the pieces between the dots, in order. The scan keeps the
  piece read so far in \<open>cur\<close> and closes it at each dot and at the end of the text, so
  a string without a dot (the empty string too) gives one piece.
\<close>

fun split_from :: "string \<Rightarrow> string \<Rightarrow> string list" where
  "split_from cur [] = [cur]"
| "split_from cur (c # cs) =
     (if c = CHR ''.'' then cur # split_from [] cs else split_from (cur @ [c]) cs)"

definition split_dot :: "string \<Rightarrow> string list" where
  "split_dot s = split_from [] s"

text \<open>
  \<open>AtomPath.from_string\<close>. The constructor call inside \<open>try\<close> cannot raise (the nine
  indices are in range after the length test), so the \<open>except\<close> branch is never taken.
\<close>

definition from_string :: "string \<Rightarrow> AtomPath option" where
  "from_string path_str =
     (let parts = split_dot path_str in
      if length parts \<noteq> 9 \<or> parts ! 0 \<noteq> ''State'' then None
      else Some \<lparr> frame = parts ! 1, context_seg = parts ! 2, block = parts ! 3,
                  record_seg = parts ! 4, closure = parts ! 5, logic = parts ! 6,
                  relation = parts ! 7, atom = parts ! 8 \<rparr>)"

text \<open>\<open>AtomPath.to_string\<close>: the f-string, written out.\<close>

definition to_string :: "AtomPath \<Rightarrow> string" where
  "to_string p =
     ''State.'' @ frame p @ ''.'' @ context_seg p @ ''.'' @ block p @ ''.'' @ record_seg p
       @ ''.'' @ closure p @ ''.'' @ logic p @ ''.'' @ relation p @ ''.'' @ atom p"

text \<open>\<open>AtomPath.validate\<close>.\<close>

definition validate :: "AtomPath \<Rightarrow> bool" where
  "validate p \<longleftrightarrow>
     frame p \<in> {''FrameA'', ''FrameB''} \<and>
     context_seg p \<in> {''Local'', ''Remote'', ''Proposed'', ''Canonical''} \<and>
     block p \<in> {''Block1'', ''Block2''} \<and>
     record_seg p \<in> {''Record1'', ''Record2''} \<and>
     closure p \<in> {''Closure1'', ''Closure2''} \<and>
     logic p \<in> {''Logic1'', ''Logic2''} \<and>
     relation p \<in> {''Relation1'', ''Relation2''} \<and>
     atom p \<in> {''L'', ''R''}"

subsection \<open>VMState\<close>

record 'f VMState =
  logic4 :: "'f val list"
  record16 :: "'f val list"
  context64 :: "'f val list"
  state256 :: "'f val list"
  stack :: "'f val list"
  leaves :: "string \<rightharpoonup> 'f val"
  pc :: int

text \<open>\<open>VMState()\<close>: the default factories of the dataclass.\<close>

definition VMState_init :: "'f VMState" where
  "VMState_init =
     \<lparr> logic4 = replicate 4 EMPTY, record16 = replicate 16 EMPTY,
       context64 = replicate 64 EMPTY, state256 = replicate 256 EMPTY,
       stack = [], leaves = Map.empty, pc = 0 \<rparr>"

subsection \<open>AtomVM\<close>

text \<open>\<open>_init_domains\<close>: the eight vocabularies, in the order the source lists them.\<close>

definition frames :: "string list" where
  "frames = [''FrameA'', ''FrameB'']"

definition contexts :: "string list" where
  "contexts = [''Local'', ''Remote'', ''Proposed'', ''Canonical'']"

definition blocks :: "string list" where
  "blocks = [''Block1'', ''Block2'']"

definition records :: "string list" where
  "records = [''Record1'', ''Record2'']"

definition closures :: "string list" where
  "closures = [''Closure1'', ''Closure2'']"

definition logics :: "string list" where
  "logics = [''Logic1'', ''Logic2'']"

definition relations :: "string list" where
  "relations = [''Relation1'', ''Relation2'']"

definition atoms :: "string list" where
  "atoms = [''L'', ''R'']"

text \<open>
  \<open>zero_state\<close>. The eight nested \<open>for\<close> loops visit \<open>zero_space\<close> in this order
  (the first generator is the outermost loop); \<open>zero_body\<close> is the body of the
  innermost loop, acting on the VM state and on the local list \<open>paths\<close>.
\<close>

type_synonym segs = "string \<times> string \<times> string \<times> string \<times> string \<times> string \<times> string \<times> string"

definition zero_space :: "segs list" where
  "zero_space =
     [(f, c, b, r, cl, l, rl, a).
        f \<leftarrow> frames, c \<leftarrow> contexts, b \<leftarrow> blocks, r \<leftarrow> records,
        cl \<leftarrow> closures, l \<leftarrow> logics, rl \<leftarrow> relations, a \<leftarrow> atoms]"

fun zero_path :: "segs \<Rightarrow> string" where
  "zero_path (f, c, b, r, cl, l, rl, a) =
     ''State.'' @ f @ ''.'' @ c @ ''.'' @ b @ ''.'' @ r @ ''.'' @ cl @ ''.'' @ l
       @ ''.'' @ rl @ ''.'' @ a"

definition zero_body :: "'f VMState \<times> string list \<Rightarrow> segs \<Rightarrow> 'f VMState \<times> string list" where
  "zero_body acc t =
     (let path = zero_path t in
      ((fst acc)\<lparr> leaves := (leaves (fst acc))(path \<mapsto> EMPTY) \<rparr>, snd acc @ [path]))"

definition zero_state :: "'f VMState \<Rightarrow> string list \<times> 'f VMState" where
  "zero_state st = (let r = foldl zero_body (st, []) zero_space in (snd r, fst r))"

text \<open>
  \<open>set_leaf\<close> and \<open>get_leaf\<close> return the method's result, the VM state after the
  call and the lines printed to \<open>sys.stderr\<close>. An \<open>AtomPath\<close> object is always true in
  a boolean test, so \<open>not atom_path\<close> holds exactly for \<open>None\<close>.
\<close>

definition invalid_path_msg :: "string \<Rightarrow> string" where
  "invalid_path_msg path = ''ERROR: Invalid path: '' @ path"

definition set_leaf :: "'f VMState \<Rightarrow> string \<Rightarrow> 'f val \<Rightarrow> bool \<times> 'f VMState \<times> string list" where
  "set_leaf st path v =
     (case from_string path of
        None \<Rightarrow> (False, st, [invalid_path_msg path])
      | Some atom_path \<Rightarrow>
          if \<not> validate atom_path then (False, st, [invalid_path_msg path])
          else (True,
                st\<lparr> leaves := (leaves st)(path \<mapsto> (if v \<noteq> VStr [] then v else EMPTY)) \<rparr>,
                []))"

definition get_leaf :: "'f VMState \<Rightarrow> string \<Rightarrow> 'f val option \<times> 'f VMState \<times> string list" where
  "get_leaf st path =
     (case from_string path of
        None \<Rightarrow> (None, st, [invalid_path_msg path])
      | Some atom_path \<Rightarrow>
          if \<not> validate atom_path then (None, st, [invalid_path_msg path])
          else (Some (case leaves st path of None \<Rightarrow> EMPTY | Some v \<Rightarrow> v), st, []))"

text \<open>
  The register loads. \<open>bank[start + i] = values[i]\<close> raises \<open>IndexError\<close> when the
  index is past the end of the bank; the stores already done stay, so the loop returns
  the bank as it stands together with the exception, if any. The read \<open>values[i]\<close> is
  in range, \<open>i\<close> running below \<open>min(n, len(values))\<close>.
\<close>

datatype py_error = IndexError

fun store_loop :: "nat \<Rightarrow> 'f val list \<Rightarrow> nat list \<Rightarrow> 'f val list \<Rightarrow> 'f val list \<times> py_error option" where
  "store_loop start values [] bank = (bank, None)"
| "store_loop start values (i # is) bank =
     (if start + i < length bank
      then store_loop start values is (bank[start + i := values ! i])
      else (bank, Some IndexError))"

definition load_to_logic4 :: "'f VMState \<Rightarrow> 'f val list \<Rightarrow> py_error option \<times> 'f VMState" where
  "load_to_logic4 st values =
     (let r = store_loop 0 values [0..<min 4 (length values)] (logic4 st)
      in (snd r, st\<lparr> logic4 := fst r \<rparr>))"

definition load_to_record16 :: "'f VMState \<Rightarrow> 'f val list \<Rightarrow> py_error option \<times> 'f VMState" where
  "load_to_record16 st values =
     (let r = store_loop 0 values [0..<min 16 (length values)] (record16 st)
      in (snd r, st\<lparr> record16 := fst r \<rparr>))"

definition load_to_context64 :: "'f VMState \<Rightarrow> int \<Rightarrow> 'f val list \<Rightarrow> py_error option \<times> 'f VMState" where
  "load_to_context64 st batch values =
     (if 0 \<le> batch \<and> batch < 4 then
        let start = nat (batch * 16);
            r = store_loop start values [0..<min 16 (length values)] (context64 st)
        in (snd r, st\<lparr> context64 := fst r \<rparr>)
      else (None, st))"

definition load_to_state256 :: "'f VMState \<Rightarrow> int \<Rightarrow> 'f val list \<Rightarrow> py_error option \<times> 'f VMState" where
  "load_to_state256 st batch values =
     (if 0 \<le> batch \<and> batch < 16 then
        let start = nat (batch * 16);
            r = store_loop start values [0..<min 16 (length values)] (state256 st)
        in (snd r, st\<lparr> state256 := fst r \<rparr>)
      else (None, st))"

text \<open>The stack: \<open>append\<close> and \<open>pop\<close> work at the end of the list.\<close>

definition push_stack :: "'f VMState \<Rightarrow> 'f val \<Rightarrow> 'f VMState" where
  "push_stack st v = st\<lparr> stack := stack st @ [v] \<rparr>"

definition pop_stack :: "'f VMState \<Rightarrow> 'f val option \<times> 'f VMState" where
  "pop_stack st =
     (if stack st \<noteq> [] then (Some (last (stack st)), st\<lparr> stack := butlast (stack st) \<rparr>)
      else (None, st))"

text \<open>
  \<open>pair\<close> formats both values as \<open>str()\<close> does: a string as itself, an integer in
  decimal, a float by the parameter \<open>fmt\<close>.
\<close>

definition digit_char :: "nat \<Rightarrow> char" where
  "digit_char d = ''0123456789'' ! d"

function digits :: "nat \<Rightarrow> string" where
  "digits n = (if n < 10 then [digit_char n] else digits (n div 10) @ [digit_char (n mod 10)])"
  by pat_completeness auto
termination
  by (relation "measure id") auto

declare digits.simps [simp del]

definition str_int :: "int \<Rightarrow> string" where
  "str_int i = (if i < 0 then CHR ''-'' # digits (nat (- i)) else digits (nat i))"

fun py_str :: "('f \<Rightarrow> string) \<Rightarrow> 'f val \<Rightarrow> string" where
  "py_str fmt (VStr s) = s"
| "py_str fmt (VInt i) = str_int i"
| "py_str fmt (VFloat x) = fmt x"

definition pair :: "('f \<Rightarrow> string) \<Rightarrow> 'f val \<Rightarrow> 'f val \<Rightarrow> 'f val" where
  "pair fmt a b = VStr (''('' @ py_str fmt a @ '' . '' @ py_str fmt b @ '')'')"

text \<open>
  \<open>build_tree\<close>. \<open>range2 n\<close> is \<open>range(0, n, 2)\<close>; \<open>level_loop\<close> is the \<open>for\<close> loop
  filling \<open>next_level\<close>, \<open>build_loop\<close> the \<open>while\<close> loop. The counter \<open>level\<close> is
  written and never read, and is left out.
\<close>

definition range2 :: "nat \<Rightarrow> nat list" where
  "range2 n = map (\<lambda>k. 2 * k) [0..<(n + 1) div 2]"

fun level_loop :: "('f \<Rightarrow> string) \<Rightarrow> 'f val list \<Rightarrow> nat list \<Rightarrow> 'f val list \<Rightarrow> 'f val list" where
  "level_loop fmt current [] next_level = next_level"
| "level_loop fmt current (i # is) next_level =
     level_loop fmt current is
       (if i + 1 < length current
        then next_level @ [pair fmt (current ! i) (current ! (i + 1))]
        else next_level @ [current ! i])"

lemma length_level_loop:
  "length (level_loop fmt current is next_level) = length next_level + length is"
  by (induction "is" arbitrary: next_level) auto

function build_loop :: "('f \<Rightarrow> string) \<Rightarrow> 'f val list \<Rightarrow> 'f val list" where
  "build_loop fmt current =
     (if length current > 1
      then build_loop fmt (level_loop fmt current (range2 (length current)) [])
      else current)"
  by pat_completeness auto
termination
  by (relation "measure (\<lambda>(fmt, current). length current)")
     (auto simp: length_level_loop range2_def)

declare build_loop.simps [simp del]

definition build_tree :: "('f \<Rightarrow> string) \<Rightarrow> 'f val list \<Rightarrow> 'f val" where
  "build_tree fmt atoms_in =
     (if atoms_in = [] then EMPTY
      else let current = build_loop fmt atoms_in
           in if current \<noteq> [] then current ! 0 else EMPTY)"

subsection \<open>The fold of the specification\<close>

text \<open>
  The pairwise reduction as the specification words it: one halving step replaces
  consecutive pairs from the left and carries an unpaired last element; the fold repeats
  the step until one element is left.
\<close>

fun halve :: "('f \<Rightarrow> string) \<Rightarrow> 'f val list \<Rightarrow> 'f val list" where
  "halve fmt [] = []"
| "halve fmt [x] = [x]"
| "halve fmt (x # y # rest) = pair fmt x y # halve fmt rest"

lemma length_halve: "length (halve fmt xs) = (length xs + 1) div 2"
  by (induction fmt xs rule: halve.induct) auto

function fold_spec :: "('f \<Rightarrow> string) \<Rightarrow> 'f val list \<Rightarrow> 'f val" where
  "fold_spec fmt [] = EMPTY"
| "fold_spec fmt [x] = x"
| "fold_spec fmt (x # y # rest) = fold_spec fmt (halve fmt (x # y # rest))"
  by pat_completeness auto
termination
  by (relation "measure (\<lambda>(fmt, xs). length xs)") (auto simp: length_halve)

subsection \<open>Reachable states and the invariant\<close>

text \<open>
  The states a VM goes through: it starts as \<open>VMState()\<close> and changes by the core
  operations only (\<open>pair\<close> and \<open>build_tree\<close> do not touch the state).
\<close>

inductive reachable :: "'f VMState \<Rightarrow> bool" where
  r_init: "reachable VMState_init"
| r_zero: "reachable st \<Longrightarrow> reachable (snd (zero_state st))"
| r_set: "reachable st \<Longrightarrow> reachable (fst (snd (set_leaf st path v)))"
| r_get: "reachable st \<Longrightarrow> reachable (fst (snd (get_leaf st path)))"
| r_logic4: "reachable st \<Longrightarrow> reachable (snd (load_to_logic4 st values))"
| r_record16: "reachable st \<Longrightarrow> reachable (snd (load_to_record16 st values))"
| r_context64: "reachable st \<Longrightarrow> reachable (snd (load_to_context64 st batch values))"
| r_state256: "reachable st \<Longrightarrow> reachable (snd (load_to_state256 st batch values))"
| r_push: "reachable st \<Longrightarrow> reachable (push_stack st v)"
| r_pop: "reachable st \<Longrightarrow> reachable (snd (pop_stack st))"

definition is_valid_path :: "string \<Rightarrow> bool" where
  "is_valid_path s = (case from_string s of None \<Rightarrow> False | Some p \<Rightarrow> validate p)"

definition bank_sizes_ok :: "'f VMState \<Rightarrow> bool" where
  "bank_sizes_ok st \<longleftrightarrow>
     length (logic4 st) = 4 \<and> length (record16 st) = 16 \<and>
     length (context64 st) = 64 \<and> length (state256 st) = 256"

subsection \<open>Auxiliary notions for the proofs\<close>

text \<open>
  \<open>nodot p\<close>: no segment of \<open>p\<close> contains a dot. \<open>join_dot\<close> puts the dots back
  between the pieces of \<open>split_dot\<close>. \<open>segs_path\<close> is the \<open>AtomPath\<close> made of the
  eight loop variables of \<open>zero_state\<close>.
\<close>

definition nodot :: "AtomPath \<Rightarrow> bool" where
  "nodot p \<longleftrightarrow>
     CHR ''.'' \<notin> set (frame p @ context_seg p @ block p @ record_seg p @ closure p @ logic p
                       @ relation p @ atom p)"

fun join_dot :: "string list \<Rightarrow> string" where
  "join_dot [] = []"
| "join_dot [p] = p"
| "join_dot (p # q # ps) = p @ ''.'' @ join_dot (q # ps)"

definition segs_path :: "segs \<Rightarrow> AtomPath" where
  "segs_path t = (case t of (f, c, b, r, cl, l, rl, a) \<Rightarrow>
      \<lparr> frame = f, context_seg = c, block = b, record_seg = r, closure = cl,
                logic = l, relation = rl, atom = a \<rparr>)"

section \<open>Properties of the path codec\<close>

lemma split_from_not_Nil: "split_from cur s \<noteq> []"
  by (induction s arbitrary: cur) auto

lemma split_dot_not_Nil: "split_dot s \<noteq> []"
  by (simp add: split_dot_def split_from_not_Nil)

lemma split_from_nodot: "CHR ''.'' \<notin> set a \<Longrightarrow> split_from cur a = [cur @ a]"
  by (induction a arbitrary: cur) auto

lemma split_from_append:
  "CHR ''.'' \<notin> set a \<Longrightarrow> split_from cur (a @ CHR ''.'' # r) = (cur @ a) # split_from [] r"
  by (induction a arbitrary: cur) auto

lemma split_dot_nodot: "CHR ''.'' \<notin> set a \<Longrightarrow> split_dot a = [a]"
  by (simp add: split_dot_def split_from_nodot)

lemma split_dot_append:
  "CHR ''.'' \<notin> set a \<Longrightarrow> split_dot (a @ CHR ''.'' # r) = a # split_dot r"
  by (simp add: split_dot_def split_from_append)

lemma join_dot_Cons_ne: "ps \<noteq> [] \<Longrightarrow> join_dot (p # ps) = p @ CHR ''.'' # join_dot ps"
  by (cases ps) auto

lemma join_split_from: "join_dot (split_from cur s) = cur @ s"
  by (induction s arbitrary: cur) (simp_all add: join_dot_Cons_ne split_from_not_Nil)

lemma join_split: "join_dot (split_dot s) = s"
  by (simp add: split_dot_def join_split_from)

lemma split_from_pieces_nodot:
  "x \<in> set (split_from cur s) \<Longrightarrow> CHR ''.'' \<notin> set cur \<Longrightarrow> CHR ''.'' \<notin> set x"
proof (induction s arbitrary: cur)
  case Nil
  then show ?case by simp
next
  case (Cons c s)
  show ?case
  proof (cases "c = CHR ''.''")
    case True
    with Cons.prems have "x = cur \<or> x \<in> set (split_from [] s)" by simp
    then show ?thesis using Cons.IH[of "[]"] Cons.prems(2) by auto
  next
    case False
    with Cons.prems have "x \<in> set (split_from (cur @ [c]) s)" by simp
    then show ?thesis using Cons.IH[of "cur @ [c]"] Cons.prems(2) False by simp
  qed
qed

lemma split_dot_pieces_nodot: "x \<in> set (split_dot s) \<Longrightarrow> CHR ''.'' \<notin> set x"
  using split_from_pieces_nodot[of x "[]" s] by (simp add: split_dot_def)

lemma len9: "length xs = 9 \<Longrightarrow> xs = [xs!0, xs!1, xs!2, xs!3, xs!4, xs!5, xs!6, xs!7, xs!8]"
  by (auto simp: eval_nat_numeral length_Suc_conv)

lemma to_from_string: "from_string s = Some p \<Longrightarrow> to_string p = s"
proof -
  assume a: "from_string s = Some p"
  let ?xs = "split_dot s"
  from a have l: "length ?xs = 9" and h: "?xs ! 0 = ''State''" 
    and p: "p = \<lparr> frame = ?xs ! 1, context_seg = ?xs ! 2, block = ?xs ! 3,
                  record_seg = ?xs ! 4, closure = ?xs ! 5, logic = ?xs ! 6,
                  relation = ?xs ! 7, atom = ?xs ! 8 \<rparr>"
    by (auto simp: from_string_def Let_def split: if_splits)
  have "join_dot ?xs = s" by (rule join_split)
  moreover have "join_dot ?xs = join_dot [?xs!0, ?xs!1, ?xs!2, ?xs!3, ?xs!4, ?xs!5, ?xs!6, ?xs!7, ?xs!8]"
    using len9[OF l] by simp
  ultimately show ?thesis using h p by (simp add: to_string_def)
qed

lemma validate_nodot:
  assumes "validate p"
  shows "CHR ''.'' \<notin> set (frame p)" "CHR ''.'' \<notin> set (context_seg p)"
    "CHR ''.'' \<notin> set (block p)" "CHR ''.'' \<notin> set (record_seg p)"
    "CHR ''.'' \<notin> set (closure p)" "CHR ''.'' \<notin> set (logic p)"
    "CHR ''.'' \<notin> set (relation p)" "CHR ''.'' \<notin> set (atom p)"
proof -
  from assms have "frame p \<in> {''FrameA'', ''FrameB''}"
    unfolding validate_def by (elim conjE)
  then show "CHR ''.'' \<notin> set (frame p)" by auto
  from assms have "context_seg p \<in> {''Local'', ''Remote'', ''Proposed'', ''Canonical''}"
    unfolding validate_def by (elim conjE)
  then show "CHR ''.'' \<notin> set (context_seg p)" by auto
  from assms have "block p \<in> {''Block1'', ''Block2''}"
    unfolding validate_def by (elim conjE)
  then show "CHR ''.'' \<notin> set (block p)" by auto
  from assms have "record_seg p \<in> {''Record1'', ''Record2''}"
    unfolding validate_def by (elim conjE)
  then show "CHR ''.'' \<notin> set (record_seg p)" by auto
  from assms have "closure p \<in> {''Closure1'', ''Closure2''}"
    unfolding validate_def by (elim conjE)
  then show "CHR ''.'' \<notin> set (closure p)" by auto
  from assms have "logic p \<in> {''Logic1'', ''Logic2''}"
    unfolding validate_def by (elim conjE)
  then show "CHR ''.'' \<notin> set (logic p)" by auto
  from assms have "relation p \<in> {''Relation1'', ''Relation2''}"
    unfolding validate_def by (elim conjE)
  then show "CHR ''.'' \<notin> set (relation p)" by auto
  from assms have "atom p \<in> {''L'', ''R''}"
    unfolding validate_def by (elim conjE)
  then show "CHR ''.'' \<notin> set (atom p)" by auto
qed

lemma from_to_string:
  assumes "CHR ''.'' \<notin> set (frame p)" "CHR ''.'' \<notin> set (context_seg p)"
    "CHR ''.'' \<notin> set (block p)" "CHR ''.'' \<notin> set (record_seg p)"
    "CHR ''.'' \<notin> set (closure p)" "CHR ''.'' \<notin> set (logic p)"
    "CHR ''.'' \<notin> set (relation p)" "CHR ''.'' \<notin> set (atom p)"
  shows "from_string (to_string p) = Some p"
  using assms
  by (simp add: from_string_def to_string_def split_dot_def split_from_append split_from_nodot)


lemma from_string_nodot:
  assumes "from_string s = Some p"
  shows "nodot p"
proof -
  let ?xs = "split_dot s"
  from assms have l: "length ?xs = 9"
    and p: "p = \<lparr> frame = ?xs ! 1, context_seg = ?xs ! 2, block = ?xs ! 3,
                  record_seg = ?xs ! 4, closure = ?xs ! 5, logic = ?xs ! 6,
                  relation = ?xs ! 7, atom = ?xs ! 8 \<rparr>"
    by (auto simp: from_string_def Let_def split: if_splits)
  have "\<And>i. i < 9 \<Longrightarrow> CHR ''.'' \<notin> set (?xs ! i)"
    using l by (metis nth_mem split_dot_pieces_nodot)
  then show ?thesis by (simp add: p nodot_def)
qed

section \<open>Properties of the tree folder\<close>

lemma level_loop_halve_aux:
  "m = (length cur + 1) div 2 \<Longrightarrow>
   level_loop fmt cur (map (\<lambda>k. 2 * k) [k..<m]) nxt = nxt @ halve fmt (drop (2 * k) cur)"
proof (induction "m - k" arbitrary: k nxt)
  case 0
  then have "length cur \<le> 2 * k" by linarith
  with 0 show ?case by simp
next
  case (Suc d)
  then have km: "k < m" by simp
  with Suc.prems have lt: "2 * k < length cur" by linarith
  have up: "[k..<m] = k # [Suc k..<m]" using km by (simp add: upt_conv_Cons)
  have IH: "\<And>nxt. level_loop fmt cur (map (\<lambda>k. 2 * k) [Suc k..<m]) nxt
              = nxt @ halve fmt (drop (2 * Suc k) cur)"
    using Suc.hyps(1)[of "Suc k"] Suc.hyps(2) Suc.prems by simp
  show ?case
  proof (cases "2 * k + 1 < length cur")
    case True
    have d: "drop (2 * k) cur = cur ! (2 * k) # cur ! (2 * k + 1) # drop (2 * Suc k) cur"
      using True lt by (simp add: Cons_nth_drop_Suc)
    show ?thesis using True by (simp add: up IH d)
  next
    case False
    then have "drop (2 * k + 1) cur = []" by simp
    then have d: "drop (2 * k) cur = [cur ! (2 * k)]"
      using lt by (metis Cons_nth_drop_Suc Suc_eq_plus1)
    have d2: "drop (2 * Suc k) cur = []" using False by simp
    show ?thesis using False by (simp add: up IH d d2)
  qed
qed

lemma level_loop_halve: "level_loop fmt cur (range2 (length cur)) [] = halve fmt cur"
  using level_loop_halve_aux[of "(length cur + 1) div 2" cur fmt 0 "[]"]
  by (simp add: range2_def)

lemma build_loop_fold:
  "xs \<noteq> [] \<Longrightarrow> build_loop fmt xs = [fold_spec fmt xs]"
proof (induction fmt xs rule: fold_spec.induct)
  case (1 fmt)
  then show ?case by simp
next
  case (2 fmt x)
  show ?case by (subst build_loop.simps) simp
next
  case (3 fmt x y rest)
  have "build_loop fmt (x # y # rest) = build_loop fmt (halve fmt (x # y # rest))"
    using level_loop_halve[of fmt "x # y # rest"]
    by (subst build_loop.simps) (simp del: halve.simps)
  then show ?case using 3 by simp
qed

lemma build_tree_fold: "build_tree fmt xs = fold_spec fmt xs"
  by (cases "xs = []") (simp_all add: build_tree_def build_loop_fold)



section \<open>Properties of \<open>zero_state\<close>\<close>

lemma zero_space_product:
  "zero_space = List.product frames (List.product contexts (List.product blocks
     (List.product records (List.product closures (List.product logics
       (List.product relations atoms))))))"
  by (simp add: zero_space_def frames_def contexts_def blocks_def records_def closures_def
      logics_def relations_def atoms_def)

lemma length_zero_space: "length zero_space = 512"
  unfolding zero_space_product length_product
  by (simp add: frames_def contexts_def blocks_def records_def closures_def
      logics_def relations_def atoms_def)

lemma distinct_zero_space: "distinct zero_space"
  unfolding zero_space_product
  by (intro distinct_product) (simp_all add: frames_def contexts_def blocks_def records_def closures_def
      logics_def relations_def atoms_def)

lemma in_zero_space:
  "(f, c, b, r, cl, l, rl, a) \<in> set zero_space \<longleftrightarrow>
     validate \<lparr> frame = f, context_seg = c, block = b, record_seg = r, closure = cl,
                logic = l, relation = rl, atom = a \<rparr>"
  unfolding zero_space_product set_product mem_Sigma_iff
  by (simp add: validate_def frames_def contexts_def blocks_def records_def closures_def
      logics_def relations_def atoms_def)

lemma zero_path_to_string:
  "zero_path (f, c, b, r, cl, l, rl, a) =
     to_string \<lparr> frame = f, context_seg = c, block = b, record_seg = r, closure = cl,
                logic = l, relation = rl, atom = a \<rparr>"
  by (simp add: to_string_def)


lemma foldl_zero_body_snd:
  "snd (foldl zero_body (st, acc) ts) = acc @ map zero_path ts"
  by (induction ts arbitrary: st acc) (simp_all add: zero_body_def Let_def)

lemma foldl_zero_body_leaves:
  "leaves (fst (foldl zero_body (st, acc) ts)) k =
     (if k \<in> set (map zero_path ts) then Some EMPTY else leaves st k)"
  by (induction ts arbitrary: st acc) (simp_all add: zero_body_def Let_def)

lemma foldl_zero_body_rest:
  "(fst (foldl zero_body (st, acc) ts))\<lparr> leaves := L \<rparr> = st\<lparr> leaves := L \<rparr>"
  by (induction ts arbitrary: st acc) (simp_all add: zero_body_def Let_def)

lemma zero_state_paths: "fst (zero_state st) = map zero_path zero_space"
  by (simp add: zero_state_def Let_def foldl_zero_body_snd)

lemma zero_state_leaves:
  "leaves (snd (zero_state st)) k =
     (if k \<in> set (map zero_path zero_space) then Some EMPTY else leaves st k)"
  by (simp add: zero_state_def Let_def foldl_zero_body_leaves)

lemma zero_state_rest: "snd (zero_state st) = st\<lparr> leaves := leaves (snd (zero_state st)) \<rparr>"
  using foldl_zero_body_rest[where st=st and acc="[]" and ts=zero_space and L="leaves (snd (zero_state st))"]
  by (simp add: zero_state_def Let_def)

lemma zero_space_valid:
  assumes "t \<in> set zero_space"
  shows "validate (segs_path t)" and "from_string (zero_path t) = Some (segs_path t)"
proof -
  obtain f c b r cl l rl a where t: "t = (f, c, b, r, cl, l, rl, a)" by (metis surj_pair)
  show v: "validate (segs_path t)" using assms by (simp add: t in_zero_space segs_path_def)
  have "zero_path t = to_string (segs_path t)" by (simp add: t segs_path_def to_string_def)
  then show "from_string (zero_path t) = Some (segs_path t)"
    using validate_nodot[OF v] by (simp add: from_to_string)
qed

lemma inj_on_zero_path: "inj_on zero_path (set zero_space)"
proof (rule inj_onI)
  fix t u assume "t \<in> set zero_space" "u \<in> set zero_space" "zero_path t = zero_path u"
  then have "segs_path t = segs_path u" using zero_space_valid(2) by (metis option.inject)
  then show "t = u" by (auto simp: segs_path_def split: prod.splits)
qed

lemma distinct_zero_paths: "distinct (map zero_path zero_space)"
  by (simp add: distinct_map distinct_zero_space inj_on_zero_path)

lemma get_leaf_zero:
  assumes "p \<in> set (fst (zero_state st))"
  shows "get_leaf (snd (zero_state st)) p = (Some EMPTY, snd (zero_state st), [])"
proof -
  from assms obtain t where t: "t \<in> set zero_space" "p = zero_path t"
    by (auto simp: zero_state_paths)
  have "leaves (snd (zero_state st)) p = Some EMPTY"
    using assms by (simp add: zero_state_leaves zero_state_paths)
  then show ?thesis using zero_space_valid[OF t(1)] t(2) by (simp add: get_leaf_def)
qed

lemma zero_state_idem: "zero_state (snd (zero_state st)) = zero_state st"
proof -
  have "leaves (snd (zero_state (snd (zero_state st)))) = leaves (snd (zero_state st))"
    by (rule ext) (simp add: zero_state_leaves)
  then have "snd (zero_state (snd (zero_state st))) = snd (zero_state st)"
    using zero_state_rest[of "snd (zero_state st)"] by simp
  then show ?thesis by (simp add: prod_eq_iff zero_state_paths)
qed

lemma zero_space_nth:
  "n < 512 \<Longrightarrow>
   zero_space ! n =
     (frames ! (n div 256), contexts ! (n mod 256 div 64), blocks ! (n mod 64 div 32),
      records ! (n mod 32 div 16), closures ! (n mod 16 div 8), logics ! (n mod 8 div 4),
      relations ! (n mod 4 div 2), atoms ! (n mod 2))"
proof -
  assume n: "n < 512"
  have len: "length frames = 2" "length contexts = 4" "length blocks = 2" "length records = 2"
    "length closures = 2" "length logics = 2" "length relations = 2" "length atoms = 2"
    by (simp_all add: frames_def contexts_def blocks_def records_def closures_def
        logics_def relations_def atoms_def)
  have m: "n mod 256 mod 64 = n mod 64" "n mod 64 mod 32 = n mod 32" "n mod 32 mod 16 = n mod 16"
    "n mod 16 mod 8 = n mod 8" "n mod 8 mod 4 = n mod 4" "n mod 4 mod 2 = n mod 2"
    by (simp_all add: mod_mod_cancel)
  show ?thesis
    unfolding zero_space_product
    using n by (simp add: product_nth len m)
qed

section \<open>Properties of the register loads\<close>

lemma store_loop_append:
  "store_loop start values (is @ js) bank =
     (case store_loop start values is bank of
        (b, None) \<Rightarrow> store_loop start values js b
      | (b, Some e) \<Rightarrow> (b, Some e))"
  by (induction "is" arbitrary: bank) auto

lemma store_loop_upt:
  "start + n \<le> length bank \<Longrightarrow> n \<le> length values \<Longrightarrow>
   store_loop start values [0..<n] bank =
     (take start bank @ take n values @ drop (start + n) bank, None)"
proof (induction n)
  case 0
  then show ?case by simp
next
  case (Suc n)
  let ?b = "take start bank @ take n values @ drop (start + n) bank"
  have IH: "store_loop start values [0..<n] bank = (?b, None)" using Suc by simp
  have len: "length ?b = length bank" using Suc.prems by simp
  have dr: "drop (start + n) bank = bank ! (start + n) # drop (Suc (start + n)) bank"
    using Suc.prems by (simp add: Cons_nth_drop_Suc)
  have upd: "?b[start + n := values ! n] =
      take start bank @ take (Suc n) values @ drop (start + Suc n) bank"
    using Suc.prems
    by (simp add: list_update_append take_Suc_conv_app_nth) (simp add: dr)
  show ?case using Suc.prems len by (simp add: store_loop_append IH upd)
qed

lemma length_store_loop: "length (fst (store_loop start values is bank)) = length bank"
  by (induction "is" arbitrary: bank) auto


lemma load_to_logic4_ok:
  "length (logic4 st) = 4 \<Longrightarrow>
   load_to_logic4 st values =
     (None, st\<lparr> logic4 := take (min 4 (length values)) values
                           @ drop (min 4 (length values)) (logic4 st) \<rparr>)"
  by (simp add: load_to_logic4_def Let_def store_loop_upt)

lemma load_to_record16_ok:
  "length (record16 st) = 16 \<Longrightarrow>
   load_to_record16 st values =
     (None, st\<lparr> record16 := take (min 16 (length values)) values
                           @ drop (min 16 (length values)) (record16 st) \<rparr>)"
  by (simp add: load_to_record16_def Let_def store_loop_upt)

lemma load_to_context64_ok:
  "length (context64 st) = 64 \<Longrightarrow> 0 \<le> batch \<Longrightarrow> batch < 4 \<Longrightarrow>
   load_to_context64 st batch values =
     (None, st\<lparr> context64 := take (nat batch * 16) (context64 st)
                           @ take (min 16 (length values)) values
                           @ drop (nat batch * 16 + min 16 (length values)) (context64 st) \<rparr>)"
proof -
  assume a: "length (context64 st) = 64" "0 \<le> batch" "batch < 4"
  then have n: "nat (batch * 16) = nat batch * 16" by (simp add: nat_mult_distrib)
  have "nat batch * 16 + min 16 (length values) \<le> length (context64 st)" using a by simp
  then show ?thesis using a
    by (simp add: load_to_context64_def Let_def n store_loop_upt)
qed

lemma load_to_state256_ok:
  "length (state256 st) = 256 \<Longrightarrow> 0 \<le> batch \<Longrightarrow> batch < 16 \<Longrightarrow>
   load_to_state256 st batch values =
     (None, st\<lparr> state256 := take (nat batch * 16) (state256 st)
                           @ take (min 16 (length values)) values
                           @ drop (nat batch * 16 + min 16 (length values)) (state256 st) \<rparr>)"
proof -
  assume a: "length (state256 st) = 256" "0 \<le> batch" "batch < 16"
  then have n: "nat (batch * 16) = nat batch * 16" by (simp add: nat_mult_distrib)
  have "nat batch * 16 + min 16 (length values) \<le> length (state256 st)" using a by simp
  then show ?thesis using a
    by (simp add: load_to_state256_def Let_def n store_loop_upt)
qed

section \<open>Valid paths and reachable states\<close>

lemma is_valid_path_iff: "is_valid_path s \<longleftrightarrow> s \<in> set (map zero_path zero_space)"
proof
  assume "is_valid_path s"
  then obtain p where p: "from_string s = Some p" "validate p"
    by (auto simp: is_valid_path_def split: option.splits)
  let ?t = "(frame p, context_seg p, block p, record_seg p, closure p, logic p, relation p, atom p)"
  have "to_string p = s" using p(1) by (rule to_from_string)
  then have "zero_path ?t = s" by (simp add: to_string_def)
  moreover have "?t \<in> set zero_space" using p(2) by (simp add: in_zero_space validate_def)
  ultimately show "s \<in> set (map zero_path zero_space)" by force
next
  assume "s \<in> set (map zero_path zero_space)"
  then obtain t where "t \<in> set zero_space" "s = zero_path t" by auto
  then show "is_valid_path s" using zero_space_valid[of t] by (simp add: is_valid_path_def)
qed

lemma card_valid_paths: "card {s. is_valid_path s} = 512"
proof -
  have "{s. is_valid_path s} = set (map zero_path zero_space)"
    by (auto simp: is_valid_path_iff)
  then show ?thesis
    using distinct_card[OF distinct_zero_paths] by (simp add: length_zero_space)
qed

lemma finite_valid_paths: "finite {s. is_valid_path s}"
  using card_valid_paths by (metis card.infinite zero_neq_numeral)

lemma set_leaf_cases:
  "set_leaf st path v =
     (if is_valid_path path
      then (True, st\<lparr> leaves := (leaves st)(path \<mapsto> (if v = VStr [] then EMPTY else v)) \<rparr>, [])
      else (False, st, [invalid_path_msg path]))"
  by (simp add: set_leaf_def is_valid_path_def split: option.splits)

lemma get_leaf_cases:
  "get_leaf st path =
     (if is_valid_path path
      then (Some (case leaves st path of None \<Rightarrow> EMPTY | Some v \<Rightarrow> v), st, [])
      else (None, st, [invalid_path_msg path]))"
  by (simp add: get_leaf_def is_valid_path_def split: option.splits)

lemma bank_sizes_ok_leaves [simp]: "bank_sizes_ok (st\<lparr> leaves := L \<rparr>) = bank_sizes_ok st"
  by (simp add: bank_sizes_ok_def)

lemma bank_sizes_ok_stack [simp]: "bank_sizes_ok (st\<lparr> stack := S \<rparr>) = bank_sizes_ok st"
  by (simp add: bank_sizes_ok_def)

lemma reachable_banks: "reachable st \<Longrightarrow> bank_sizes_ok st"
proof (induction rule: reachable.induct)
  case r_init
  show ?case by (simp add: bank_sizes_ok_def VMState_init_def)
next
  case (r_zero st)
  then show ?case by (subst zero_state_rest) simp
next
  case (r_set st path v)
  then show ?case by (simp add: set_leaf_cases)
next
  case (r_get st path)
  then show ?case by (simp add: get_leaf_cases)
next
  case (r_logic4 st vs)
  then show ?case by (simp add: load_to_logic4_def Let_def bank_sizes_ok_def length_store_loop)
next
  case (r_record16 st vs)
  then show ?case by (simp add: load_to_record16_def Let_def bank_sizes_ok_def length_store_loop)
next
  case (r_context64 st batch vs)
  then show ?case by (simp add: load_to_context64_def Let_def bank_sizes_ok_def length_store_loop)
next
  case (r_state256 st batch vs)
  then show ?case by (simp add: load_to_state256_def Let_def bank_sizes_ok_def length_store_loop)
next
  case (r_push st v)
  then show ?case by (simp add: push_stack_def)
next
  case (r_pop st)
  then show ?case by (simp add: pop_stack_def)
qed

lemma reachable_keys: "reachable st \<Longrightarrow> dom (leaves st) \<subseteq> {s. is_valid_path s}"
proof (induction rule: reachable.induct)
  case r_init
  show ?case by (simp add: VMState_init_def)
next
  case (r_zero st)
  have "dom (leaves (snd (zero_state st))) \<subseteq> dom (leaves st) \<union> set (map zero_path zero_space)"
    by (auto simp: zero_state_leaves dom_def split: if_splits)
  then show ?case using r_zero.IH by (auto simp: is_valid_path_iff)
next
  case (r_set st path v)
  have "dom (leaves (fst (snd (set_leaf st path v)))) \<subseteq> insert path (dom (leaves st))"
    by (auto simp: set_leaf_cases split: if_splits)
  moreover have "\<not> is_valid_path path \<Longrightarrow> fst (snd (set_leaf st path v)) = st"
    by (simp add: set_leaf_cases)
  ultimately show ?case using r_set.IH by (cases "is_valid_path path") auto
next
  case (r_get st path)
  then show ?case by (simp add: get_leaf_cases)
next
  case (r_logic4 st vs)
  then show ?case by (simp add: load_to_logic4_def Let_def)
next
  case (r_record16 st vs)
  then show ?case by (simp add: load_to_record16_def Let_def)
next
  case (r_context64 st batch vs)
  then show ?case by (simp add: load_to_context64_def Let_def)
next
  case (r_state256 st batch vs)
  then show ?case by (simp add: load_to_state256_def Let_def)
next
  case (r_push st v)
  then show ?case by (simp add: push_stack_def)
next
  case (r_pop st)
  then show ?case by (simp add: pop_stack_def)
qed

lemma dom_zero_state_init:
  "dom (leaves (snd (zero_state VMState_init))) = {s. is_valid_path s}"
  by (auto simp: zero_state_leaves is_valid_path_iff VMState_init_def dom_def)

section \<open>The claims\<close>

subsection \<open>Path codec\<close>

text \<open>
  Claim C1, as amended. Serialising a path and parsing the text again gives the path back
  exactly when no segment of the path contains a dot; this covers every path that
  \<open>from_string\<close> returns and every path that \<open>validate\<close> accepts. In the other
  direction, every text that splits into nine pieces with first piece \<open>State\<close> parses,
  and serialising the parsed path gives the text back. Neither half asks for the
  segments to be in their domains.
\<close>

theorem path_round_trip:
  "(from_string (to_string p) = Some p \<longleftrightarrow> nodot p) \<and>
   (length (split_dot s) = 9 \<and> split_dot s ! 0 = ''State'' \<longrightarrow>
      (\<exists>q. from_string s = Some q \<and> to_string q = s))"
proof (intro conjI impI iffI)
  assume "from_string (to_string p) = Some p"
  then show "nodot p" by (rule from_string_nodot)
next
  assume "nodot p"
  then show "from_string (to_string p) = Some p"
    by (intro from_to_string) (simp_all add: nodot_def)
next
  assume wf: "length (split_dot s) = 9 \<and> split_dot s ! 0 = ''State''"
  then obtain q where q: "from_string s = Some q" by (simp add: from_string_def Let_def)
  then have "to_string q = s" by (rule to_from_string)
  with q show "\<exists>q. from_string s = Some q \<and> to_string q = s" by blast
qed

theorem path_round_trip_witness:
  "nodot \<lparr> frame = ''FrameZ'', context_seg = ''Local'', block = '''', record_seg = ''Record1'',
       closure = ''x'', logic = ''Logic1'', relation = ''Relation1'', atom = ''L'' \<rparr> \<and>
   from_string (to_string \<lparr> frame = ''FrameZ'', context_seg = ''Local'', block = '''', record_seg = ''Record1'',
       closure = ''x'', logic = ''Logic1'', relation = ''Relation1'', atom = ''L'' \<rparr>)
     = Some \<lparr> frame = ''FrameZ'', context_seg = ''Local'', block = '''', record_seg = ''Record1'',
       closure = ''x'', logic = ''Logic1'', relation = ''Relation1'', atom = ''L'' \<rparr> \<and>
   length (split_dot ''State.FrameZ.Local..Record1.x.Logic1.Relation1.L'') = 9 \<and>
   split_dot ''State.FrameZ.Local..Record1.x.Logic1.Relation1.L'' ! 0 = ''State'' \<and>
   (\<exists>q. from_string ''State.FrameZ.Local..Record1.x.Logic1.Relation1.L'' = Some q \<and>
        to_string q = ''State.FrameZ.Local..Record1.x.Logic1.Relation1.L'')"
  using path_round_trip [of "\<lparr> frame = ''FrameZ'', context_seg = ''Local'', block = '''', record_seg = ''Record1'',
       closure = ''x'', logic = ''Logic1'', relation = ''Relation1'', atom = ''L'' \<rparr>"
       "''State.FrameZ.Local..Record1.x.Logic1.Relation1.L''"]
  by (simp add: nodot_def split_dot_def)

text \<open>
  Claim C1 as stated fails for a path with a dot inside a segment: its text has ten
  pieces, and \<open>from_string\<close> returns \<open>None\<close>.
\<close>

theorem path_round_trip_counterexample:
  "from_string (to_string \<lparr> frame = ''Frame.A'', context_seg = ''Local'', block = ''Block1'',
       record_seg = ''Record1'', closure = ''Closure1'', logic = ''Logic1'',
       relation = ''Relation1'', atom = ''L'' \<rparr>)
   \<noteq> Some \<lparr> frame = ''Frame.A'', context_seg = ''Local'', block = ''Block1'',
       record_seg = ''Record1'', closure = ''Closure1'', logic = ''Logic1'',
       relation = ''Relation1'', atom = ''L'' \<rparr>"
  by (simp add: from_string_def to_string_def split_dot_def)

text \<open>
  Claim C8. \<open>from_string\<close> returns \<open>None\<close> exactly when the text does not split
  into nine pieces with first piece \<open>State\<close>; when it returns a path, the pieces 1 to 8
  are its fields in the order frame, context, block, record, closure, logic, relation,
  atom; and every text of that shape parses, whatever its segments are, so parsing
  checks no domain.
\<close>

theorem from_string_spec:
  "(from_string s = None \<longleftrightarrow> \<not> (length (split_dot s) = 9 \<and> split_dot s ! 0 = ''State'')) \<and>
   (from_string s = Some p \<longrightarrow>
      frame p = split_dot s ! 1 \<and> context_seg p = split_dot s ! 2 \<and> block p = split_dot s ! 3 \<and>
      record_seg p = split_dot s ! 4 \<and> closure p = split_dot s ! 5 \<and> logic p = split_dot s ! 6 \<and>
      relation p = split_dot s ! 7 \<and> atom p = split_dot s ! 8) \<and>
   (length (split_dot s) = 9 \<and> split_dot s ! 0 = ''State'' \<longrightarrow>
      from_string s =
        Some \<lparr> frame = split_dot s ! 1, context_seg = split_dot s ! 2, block = split_dot s ! 3,
               record_seg = split_dot s ! 4, closure = split_dot s ! 5, logic = split_dot s ! 6,
               relation = split_dot s ! 7, atom = split_dot s ! 8 \<rparr>)"
  by (auto simp: from_string_def Let_def)

theorem from_string_spec_witness:
  "length (split_dot ''State.Mars.b.c.d.e.f.g.h'') = 9 \<and>
   split_dot ''State.Mars.b.c.d.e.f.g.h'' ! 0 = ''State'' \<and>
   from_string ''State.Mars.b.c.d.e.f.g.h'' =
     Some \<lparr> frame = ''Mars'', context_seg = ''b'', block = ''c'', record_seg = ''d'',
            closure = ''e'', logic = ''f'', relation = ''g'', atom = ''h'' \<rparr> \<and>
   \<not> validate \<lparr> frame = ''Mars'', context_seg = ''b'', block = ''c'', record_seg = ''d'',
            closure = ''e'', logic = ''f'', relation = ''g'', atom = ''h'' \<rparr> \<and>
   from_string ''State.Mars.b.c'' = None"
proof -
  have sp: "split_dot ''State.Mars.b.c.d.e.f.g.h'' =
      [''State'', ''Mars'', ''b'', ''c'', ''d'', ''e'', ''f'', ''g'', ''h'']"
    by (simp add: split_dot_def)
  have sq: "split_dot ''State.Mars.b.c'' = [''State'', ''Mars'', ''b'', ''c'']"
    by (simp add: split_dot_def)
  have wf: "length (split_dot ''State.Mars.b.c.d.e.f.g.h'') = 9 \<and>
      split_dot ''State.Mars.b.c.d.e.f.g.h'' ! 0 = ''State''"
    by (simp add: sp)
  have ok: "from_string ''State.Mars.b.c.d.e.f.g.h'' =
     Some \<lparr> frame = ''Mars'', context_seg = ''b'', block = ''c'', record_seg = ''d'',
            closure = ''e'', logic = ''f'', relation = ''g'', atom = ''h'' \<rparr>"
    using from_string_spec [where s = "''State.Mars.b.c.d.e.f.g.h''"
        and p = "\<lparr> frame = ''Mars'', context_seg = ''b'', block = ''c'', record_seg = ''d'',
            closure = ''e'', logic = ''f'', relation = ''g'', atom = ''h'' \<rparr>"] wf
    by (simp only: sp) simp
  have bad: "from_string ''State.Mars.b.c'' = None"
    using from_string_spec [where s = "''State.Mars.b.c''"
        and p = "\<lparr> frame = ''Mars'', context_seg = ''b'', block = ''c'', record_seg = ''d'',
            closure = ''e'', logic = ''f'', relation = ''g'', atom = ''h'' \<rparr>"]
    by (simp only: sq) simp
  show ?thesis using wf ok bad by (simp add: validate_def)
qed

subsection \<open>Tree folder\<close>

text \<open>
  Claim C2. \<open>build_tree\<close> computes the pairwise reduction of the specification: the
  empty sequence gives the empty sign; otherwise the sequence is halved by \<open>halve\<close>
  (consecutive pairs from the left, an unpaired last element carried to the end of the
  next level) until one element is left. In particular a single element is returned as
  it is and two elements give their pair.
\<close>

theorem build_tree_refines_fold:
  "build_tree fmt xs = fold_spec fmt xs \<and>
   build_tree fmt [] = EMPTY \<and> build_tree fmt [a] = a \<and> build_tree fmt [a, b] = pair fmt a b"
  by (simp add: build_tree_fold)

text \<open>
  Claim C3, as amended. For three values the result is \<open>pair (pair a b) c\<close> itself, the
  odd element carried to the end and paired last, with no further pair of parentheses
  around it; for eight values it is the balanced pairing of depth three.
\<close>

theorem build_tree_three_eight:
  "build_tree fmt [a, b, c] = pair fmt (pair fmt a b) c \<and>
   build_tree fmt [a, b, c, d, e, f, g, h] =
     pair fmt (pair fmt (pair fmt a b) (pair fmt c d)) (pair fmt (pair fmt e f) (pair fmt g h))"
  by (simp add: build_tree_fold)

text \<open>
  Claim C3 as stated puts one more pair of parentheses around \<open>pair (pair a b) c\<close>;
  for the atoms a, b, c the code returns \<open>((a . b) . c)\<close>.
\<close>

theorem build_tree_three_counterexample:
  "build_tree id [VStr ''a'', VStr ''b'', VStr ''c''] = VStr ''((a . b) . c)'' \<and>
   VStr (''('' @ py_str id (pair id (pair id (VStr ''a'') (VStr ''b'')) (VStr ''c'')) @ '')'')
     = VStr ''(((a . b) . c))'' \<and>
   build_tree id [VStr ''a'', VStr ''b'', VStr ''c'']
     \<noteq> VStr (''('' @ py_str id (pair id (pair id (VStr ''a'') (VStr ''b'')) (VStr ''c'')) @ '')'')"
  by (simp add: build_tree_fold pair_def)

subsection \<open>Leaf store\<close>

text \<open>
  Claim C4. A path text is valid when it parses and the parsed path passes \<open>validate\<close>.
  On a valid path \<open>set_leaf\<close> succeeds and a following \<open>get_leaf\<close> of the same path
  returns the value written, or the empty sign when the value was the empty string, and
  leaves the state as \<open>set_leaf\<close> made it. On any other path text both calls report
  failure (\<open>False\<close>, \<open>None\<close>, and the message on stderr) and return the state they
  were given, untouched.
\<close>

theorem set_get_leaf:
  "(is_valid_path path \<longleftrightarrow> (\<exists>p. from_string path = Some p \<and> validate p)) \<and>
   (is_valid_path path \<longrightarrow>
      set_leaf st path v =
        (True, st\<lparr> leaves := (leaves st)(path \<mapsto> (if v = VStr [] then EMPTY else v)) \<rparr>, []) \<and>
      get_leaf (fst (snd (set_leaf st path v))) path =
        (Some (if v = VStr [] then EMPTY else v), fst (snd (set_leaf st path v)), [])) \<and>
   (\<not> is_valid_path path \<longrightarrow>
      set_leaf st path v = (False, st, [invalid_path_msg path]) \<and>
      get_leaf st path = (None, st, [invalid_path_msg path]))"
proof (intro conjI impI)
  show "is_valid_path path \<longleftrightarrow> (\<exists>p. from_string path = Some p \<and> validate p)"
    by (simp add: is_valid_path_def split: option.splits)
next
  assume "is_valid_path path"
  then show "set_leaf st path v =
        (True, st\<lparr> leaves := (leaves st)(path \<mapsto> (if v = VStr [] then EMPTY else v)) \<rparr>, [])"
    by (simp add: set_leaf_cases)
next
  assume "is_valid_path path"
  then show "get_leaf (fst (snd (set_leaf st path v))) path =
        (Some (if v = VStr [] then EMPTY else v), fst (snd (set_leaf st path v)), [])"
    by (simp add: set_leaf_cases get_leaf_cases)
next
  assume "\<not> is_valid_path path"
  then show "set_leaf st path v = (False, st, [invalid_path_msg path])"
    by (simp add: set_leaf_cases)
next
  assume "\<not> is_valid_path path"
  then show "get_leaf st path = (None, st, [invalid_path_msg path])"
    by (simp add: get_leaf_cases)
qed

theorem set_get_leaf_witness:
  "is_valid_path ''State.FrameA.Local.Block1.Record1.Closure1.Logic1.Relation1.L'' \<and>
   get_leaf (fst (snd (set_leaf (VMState_init :: string VMState)
          ''State.FrameA.Local.Block1.Record1.Closure1.Logic1.Relation1.L'' (VStr ''CID:bafy''))))
        ''State.FrameA.Local.Block1.Record1.Closure1.Logic1.Relation1.L'' =
     (Some (VStr ''CID:bafy''), fst (snd (set_leaf (VMState_init :: string VMState)
          ''State.FrameA.Local.Block1.Record1.Closure1.Logic1.Relation1.L'' (VStr ''CID:bafy''))), []) \<and>
   get_leaf (fst (snd (set_leaf (VMState_init :: string VMState)
          ''State.FrameA.Local.Block1.Record1.Closure1.Logic1.Relation1.L'' (VStr ''''))))
        ''State.FrameA.Local.Block1.Record1.Closure1.Logic1.Relation1.L'' =
     (Some (EMPTY), fst (snd (set_leaf (VMState_init :: string VMState)
          ''State.FrameA.Local.Block1.Record1.Closure1.Logic1.Relation1.L'' (VStr ''''))), []) \<and>
   \<not> is_valid_path ''State.FrameC.Local.Block1.Record1.Closure1.Logic1.Relation1.L'' \<and>
   set_leaf (VMState_init :: string VMState)
       ''State.FrameC.Local.Block1.Record1.Closure1.Logic1.Relation1.L'' (VInt 1) =
     (False, VMState_init,
      [''ERROR: Invalid path: State.FrameC.Local.Block1.Record1.Closure1.Logic1.Relation1.L'']) \<and>
   \<not> is_valid_path ''State.FrameA'' \<and>
   get_leaf (VMState_init :: string VMState) ''State.FrameA'' =
     (None, VMState_init, [''ERROR: Invalid path: State.FrameA''])"
proof -
  have v: "is_valid_path ''State.FrameA.Local.Block1.Record1.Closure1.Logic1.Relation1.L''"
    by (simp add: is_valid_path_def from_string_def split_dot_def validate_def)
  have n1: "\<not> is_valid_path ''State.FrameC.Local.Block1.Record1.Closure1.Logic1.Relation1.L''"
    by (simp add: is_valid_path_def from_string_def split_dot_def validate_def)
  have n2: "\<not> is_valid_path ''State.FrameA''"
    by (simp add: is_valid_path_def from_string_def split_dot_def)
  have 1: "get_leaf (fst (snd (set_leaf (VMState_init :: string VMState)
          ''State.FrameA.Local.Block1.Record1.Closure1.Logic1.Relation1.L'' (VStr ''CID:bafy''))))
        ''State.FrameA.Local.Block1.Record1.Closure1.Logic1.Relation1.L'' =
     (Some (VStr ''CID:bafy''), fst (snd (set_leaf (VMState_init :: string VMState)
          ''State.FrameA.Local.Block1.Record1.Closure1.Logic1.Relation1.L'' (VStr ''CID:bafy''))), [])"
    using conjunct2 [OF mp [OF conjunct1 [OF conjunct2 [OF set_get_leaf [of "''State.FrameA.Local.Block1.Record1.Closure1.Logic1.Relation1.L''"
        "VMState_init :: string VMState" "VStr ''CID:bafy''"]]] v]]
    by simp
  have 2: "get_leaf (fst (snd (set_leaf (VMState_init :: string VMState)
          ''State.FrameA.Local.Block1.Record1.Closure1.Logic1.Relation1.L'' (VStr ''''))))
        ''State.FrameA.Local.Block1.Record1.Closure1.Logic1.Relation1.L'' =
     (Some (EMPTY), fst (snd (set_leaf (VMState_init :: string VMState)
          ''State.FrameA.Local.Block1.Record1.Closure1.Logic1.Relation1.L'' (VStr ''''))), [])"
    using conjunct2 [OF mp [OF conjunct1 [OF conjunct2 [OF set_get_leaf [of "''State.FrameA.Local.Block1.Record1.Closure1.Logic1.Relation1.L''"
        "VMState_init :: string VMState" "VStr ''''"]]] v]]
    by simp
  have 3: "set_leaf (VMState_init :: string VMState)
       ''State.FrameC.Local.Block1.Record1.Closure1.Logic1.Relation1.L'' (VInt 1) =
     (False, VMState_init,
      [''ERROR: Invalid path: State.FrameC.Local.Block1.Record1.Closure1.Logic1.Relation1.L''])"
    using conjunct1 [OF mp [OF conjunct2 [OF conjunct2 [OF set_get_leaf [of "''State.FrameC.Local.Block1.Record1.Closure1.Logic1.Relation1.L''"
        "VMState_init :: string VMState" "VInt 1"]]] n1]]
    by (simp add: invalid_path_msg_def)
  have 4: "get_leaf (VMState_init :: string VMState) ''State.FrameA'' =
     (None, VMState_init, [''ERROR: Invalid path: State.FrameA''])"
    using conjunct2 [OF mp [OF conjunct2 [OF conjunct2 [OF set_get_leaf [of "''State.FrameA''"
        "VMState_init :: string VMState" "VInt 1"]]] n2]]
    by (simp add: invalid_path_msg_def)
  show ?thesis using v n1 n2 1 2 3 4 by (intro conjI)
qed

text \<open>
  Claim C5, as amended. \<open>zero_state\<close> returns the paths of the Cartesian product of the
  eight vocabularies in loop order, frame outermost and atom innermost: the path at
  position \<open>n\<close> has the mixed-radix digits of \<open>n\<close> as the indices of its segments. The
  product has 2 * 4 * 2 * 2 * 2 * 2 * 2 * 2 = 512 elements, so the call returns 512
  pairwise distinct paths. After the call every returned path holds the empty sign and
  \<open>get_leaf\<close> returns it; keys outside the list and the rest of the state are as before;
  and a second call gives the same paths and the same state again.
\<close>

theorem zero_state_enumerates:
  "fst (zero_state st) = map zero_path zero_space \<and>
   length (fst (zero_state st)) = 512 \<and>
   distinct (fst (zero_state st)) \<and>
   (\<forall>n<512. fst (zero_state st) ! n =
      zero_path (frames ! (n div 256), contexts ! (n mod 256 div 64), blocks ! (n mod 64 div 32),
        records ! (n mod 32 div 16), closures ! (n mod 16 div 8), logics ! (n mod 8 div 4),
        relations ! (n mod 4 div 2), atoms ! (n mod 2))) \<and>
   (\<forall>p \<in> set (fst (zero_state st)).
      leaves (snd (zero_state st)) p = Some EMPTY \<and>
      get_leaf (snd (zero_state st)) p = (Some EMPTY, snd (zero_state st), [])) \<and>
   (\<forall>k. k \<notin> set (fst (zero_state st)) \<longrightarrow> leaves (snd (zero_state st)) k = leaves st k) \<and>
   snd (zero_state st) = st\<lparr> leaves := leaves (snd (zero_state st)) \<rparr> \<and>
   zero_state (snd (zero_state st)) = zero_state st"
proof (intro conjI allI impI ballI)
  show "fst (zero_state st) = map zero_path zero_space" by (rule zero_state_paths)
  show "length (fst (zero_state st)) = 512" by (simp add: zero_state_paths length_zero_space)
  show "distinct (fst (zero_state st))" by (simp add: zero_state_paths distinct_zero_paths)
  show "snd (zero_state st) = st\<lparr> leaves := leaves (snd (zero_state st)) \<rparr>"
    by (rule zero_state_rest)
  show "zero_state (snd (zero_state st)) = zero_state st" by (rule zero_state_idem)
next
  fix n :: nat assume "n < 512"
  then show "fst (zero_state st) ! n =
      zero_path (frames ! (n div 256), contexts ! (n mod 256 div 64), blocks ! (n mod 64 div 32),
        records ! (n mod 32 div 16), closures ! (n mod 16 div 8), logics ! (n mod 8 div 4),
        relations ! (n mod 4 div 2), atoms ! (n mod 2))"
    by (simp add: zero_state_paths length_zero_space zero_space_nth del: zero_path.simps)
next
  fix p assume "p \<in> set (fst (zero_state st))"
  then show "leaves (snd (zero_state st)) p = Some EMPTY"
    by (simp add: zero_state_leaves zero_state_paths)
next
  fix p assume "p \<in> set (fst (zero_state st))"
  then show "get_leaf (snd (zero_state st)) p = (Some EMPTY, snd (zero_state st), [])"
    by (rule get_leaf_zero)
next
  fix k assume "k \<notin> set (fst (zero_state st))"
  then show "leaves (snd (zero_state st)) k = leaves st k"
    by (simp add: zero_state_leaves zero_state_paths)
qed

theorem zero_state_enumerates_witness:
  "(0::nat) < 512 \<and> (511::nat) < 512 \<and>
   fst (zero_state (VMState_init :: string VMState)) ! 0 =
     ''State.FrameA.Local.Block1.Record1.Closure1.Logic1.Relation1.L'' \<and>
   fst (zero_state (VMState_init :: string VMState)) ! 1 =
     ''State.FrameA.Local.Block1.Record1.Closure1.Logic1.Relation1.R'' \<and>
   fst (zero_state (VMState_init :: string VMState)) ! 2 =
     ''State.FrameA.Local.Block1.Record1.Closure1.Logic1.Relation2.L'' \<and>
   fst (zero_state (VMState_init :: string VMState)) ! 256 =
     ''State.FrameB.Local.Block1.Record1.Closure1.Logic1.Relation1.L'' \<and>
   fst (zero_state (VMState_init :: string VMState)) ! 511 =
     ''State.FrameB.Canonical.Block2.Record2.Closure2.Logic2.Relation2.R'' \<and>
   ''State.FrameB.Canonical.Block2.Record2.Closure2.Logic2.Relation2.R''
     \<in> set (fst (zero_state (VMState_init :: string VMState))) \<and>
   get_leaf (snd (zero_state (VMState_init :: string VMState)))
       ''State.FrameB.Canonical.Block2.Record2.Closure2.Logic2.Relation2.R'' =
     (Some EMPTY, snd (zero_state VMState_init), []) \<and>
   ''nowhere'' \<notin> set (fst (zero_state (VMState_init :: string VMState))) \<and>
   leaves (snd (zero_state (VMState_init :: string VMState))) ''nowhere'' = None"
proof -
  let ?st = "VMState_init :: string VMState"
  note T = zero_state_enumerates [of ?st]
  note voc = frames_def contexts_def blocks_def records_def closures_def
        logics_def relations_def atoms_def
  have nth: "\<And>n. n < 512 \<Longrightarrow> fst (zero_state ?st) ! n =
      zero_path (frames ! (n div 256), contexts ! (n mod 256 div 64), blocks ! (n mod 64 div 32),
        records ! (n mod 32 div 16), closures ! (n mod 16 div 8), logics ! (n mod 8 div 4),
        relations ! (n mod 4 div 2), atoms ! (n mod 2))"
    using T by blast
  have 0: "fst (zero_state ?st) ! 0 = ''State.FrameA.Local.Block1.Record1.Closure1.Logic1.Relation1.L''"
    using nth [of 0] by (simp add: voc)
  have 1: "fst (zero_state ?st) ! 1 = ''State.FrameA.Local.Block1.Record1.Closure1.Logic1.Relation1.R''"
    using nth [of 1] by (simp add: voc)
  have 2: "fst (zero_state ?st) ! 2 = ''State.FrameA.Local.Block1.Record1.Closure1.Logic1.Relation2.L''"
    using nth [of 2] by (simp add: voc)
  have 256: "fst (zero_state ?st) ! 256 = ''State.FrameB.Local.Block1.Record1.Closure1.Logic1.Relation1.L''"
    using nth [of 256] by (simp add: voc)
  have 511: "fst (zero_state ?st) ! 511 = ''State.FrameB.Canonical.Block2.Record2.Closure2.Logic2.Relation2.R''"
    using nth [of 511] by (simp add: voc)
  have len: "length (fst (zero_state ?st)) = 512" using T by blast
  have mem: "''State.FrameB.Canonical.Block2.Record2.Closure2.Logic2.Relation2.R''
      \<in> set (fst (zero_state ?st))"
    using nth_mem [of 511 "fst (zero_state ?st)"] len 511 by simp
  have get: "get_leaf (snd (zero_state ?st))
       ''State.FrameB.Canonical.Block2.Record2.Closure2.Logic2.Relation2.R'' =
     (Some EMPTY, snd (zero_state ?st), [])"
    using T mem by blast
  have "\<not> is_valid_path ''nowhere''"
    by (simp add: is_valid_path_def from_string_def split_dot_def)
  then have out: "''nowhere'' \<notin> set (fst (zero_state ?st))"
    using T by (simp add: is_valid_path_iff)
  have "leaves (snd (zero_state ?st)) ''nowhere'' = leaves ?st ''nowhere''"
    using T out by blast
  then have none: "leaves (snd (zero_state ?st)) ''nowhere'' = None"
    by (simp add: VMState_init_def)
  show ?thesis using 0 1 2 256 511 mem get out none by simp
qed

text \<open>
  Claim C5 as stated gives the number of returned paths as 256; on a fresh VM the call
  returns 512 paths.
\<close>

theorem zero_state_count_counterexample:
  "length (fst (zero_state (VMState_init :: string VMState))) \<noteq> 256"
  by (simp add: zero_state_paths length_zero_space)

subsection \<open>Register banks\<close>

text \<open>
  Claim C6. A batched load with a batch index outside \<open>0 \<le> batch < n / 16\<close> (4 batches
  for Context64, 16 for State256) returns the state unchanged and raises nothing. On a
  bank of its size \<open>n\<close> and a batch index in range, it raises nothing and the bank
  becomes: its first \<open>batch * 16\<close> positions as before, then the first
  \<open>min 16 (length values)\<close> values, then the old positions from
  \<open>batch * 16 + min 16 (length values)\<close> on; nothing else of the state changes. Batch 2
  with 16 values on Context64 rewrites positions 32 to 47, and batch 5 on Context64 does
  nothing.
\<close>

theorem load_batched:
  "(\<not> (0 \<le> batch \<and> batch < 4) \<longrightarrow> load_to_context64 st batch values = (None, st)) \<and>
   (\<not> (0 \<le> batch \<and> batch < 16) \<longrightarrow> load_to_state256 st batch values = (None, st)) \<and>
   (length (context64 st) = 64 \<and> 0 \<le> batch \<and> batch < 4 \<longrightarrow>
      load_to_context64 st batch values =
        (None, st\<lparr> context64 := take (nat batch * 16) (context64 st)
                      @ take (min 16 (length values)) values
                      @ drop (nat batch * 16 + min 16 (length values)) (context64 st) \<rparr>)) \<and>
   (length (state256 st) = 256 \<and> 0 \<le> batch \<and> batch < 16 \<longrightarrow>
      load_to_state256 st batch values =
        (None, st\<lparr> state256 := take (nat batch * 16) (state256 st)
                      @ take (min 16 (length values)) values
                      @ drop (nat batch * 16 + min 16 (length values)) (state256 st) \<rparr>)) \<and>
   (length (context64 st) = 64 \<and> length values = 16 \<longrightarrow>
      load_to_context64 st 2 values =
        (None, st\<lparr> context64 := take 32 (context64 st) @ values @ drop 48 (context64 st) \<rparr>)) \<and>
   load_to_context64 st 5 values = (None, st)"
  by (simp add: load_to_context64_ok load_to_state256_ok)
     (simp add: load_to_context64_def load_to_state256_def)

theorem load_batched_witness:
  "length (context64 (VMState_init :: string VMState)) = 64 \<and>
   length (state256 (VMState_init :: string VMState)) = 256 \<and>
   load_to_context64 (VMState_init :: string VMState) 3 [VInt 7, VInt 8] =
     (None, VMState_init\<lparr> context64 := replicate 48 EMPTY @ [VInt 7, VInt 8] @ replicate 14 EMPTY \<rparr>) \<and>
   load_to_state256 (VMState_init :: string VMState) 15 [VInt 7] =
     (None, VMState_init\<lparr> state256 := replicate 240 EMPTY @ [VInt 7] @ replicate 15 EMPTY \<rparr>) \<and>
   load_to_context64 (VMState_init :: string VMState) 2 (map VInt [0, 1, 2, 3, 4, 5, 6, 7, 8, 9, 10, 11, 12, 13, 14, 15]) =
     (None, VMState_init\<lparr> context64 := replicate 32 EMPTY
          @ map VInt [0, 1, 2, 3, 4, 5, 6, 7, 8, 9, 10, 11, 12, 13, 14, 15] @ replicate 16 EMPTY \<rparr>) \<and>
   load_to_context64 (VMState_init :: string VMState) 4 [VInt 7] = (None, VMState_init) \<and>
   load_to_context64 (VMState_init :: string VMState) (- 1) [VInt 7] = (None, VMState_init) \<and>
   load_to_state256 (VMState_init :: string VMState) 16 [VInt 7] = (None, VMState_init)"
proof -
  have l: "length (context64 (VMState_init :: string VMState)) = 64"
    "length (state256 (VMState_init :: string VMState)) = 256"
    by (simp_all add: VMState_init_def)
  have c: "context64 (VMState_init :: string VMState) = replicate 64 EMPTY"
    "state256 (VMState_init :: string VMState) = replicate 256 EMPTY"
    by (simp_all add: VMState_init_def)
  have 1: "load_to_context64 (VMState_init :: string VMState) 3 [VInt 7, VInt 8] =
     (None, VMState_init\<lparr> context64 := replicate 48 EMPTY @ [VInt 7, VInt 8] @ replicate 14 EMPTY \<rparr>)"
    using load_batched [of 3 "VMState_init :: string VMState" "[VInt 7, VInt 8]"] l by (simp add: c)
  have 2: "load_to_state256 (VMState_init :: string VMState) 15 [VInt 7] =
     (None, VMState_init\<lparr> state256 := replicate 240 EMPTY @ [VInt 7] @ replicate 15 EMPTY \<rparr>)"
    using load_batched [of 15 "VMState_init :: string VMState" "[VInt 7]"] l by (simp add: c)
  have 3: "load_to_context64 (VMState_init :: string VMState) 2 (map VInt [0, 1, 2, 3, 4, 5, 6, 7, 8, 9, 10, 11, 12, 13, 14, 15]) =
     (None, VMState_init\<lparr> context64 := replicate 32 EMPTY
          @ map VInt [0, 1, 2, 3, 4, 5, 6, 7, 8, 9, 10, 11, 12, 13, 14, 15] @ replicate 16 EMPTY \<rparr>)"
    using load_batched [of 2 "VMState_init :: string VMState" "map VInt [0, 1, 2, 3, 4, 5, 6, 7, 8, 9, 10, 11, 12, 13, 14, 15]"] l
    by (simp add: c)
  have 4: "load_to_context64 (VMState_init :: string VMState) 4 [VInt 7] = (None, VMState_init)"
    using load_batched [of 4 "VMState_init :: string VMState" "[VInt 7]"] by simp
  have 5: "load_to_context64 (VMState_init :: string VMState) (- 1) [VInt 7] = (None, VMState_init)"
    using load_batched [of "- 1" "VMState_init :: string VMState" "[VInt 7]"] by simp
  have 6: "load_to_state256 (VMState_init :: string VMState) 16 [VInt 7] = (None, VMState_init)"
    using load_batched [of 16 "VMState_init :: string VMState" "[VInt 7]"] by simp
  show ?thesis using l 1 2 3 4 5 6 by simp
qed

text \<open>
  Claim C7. A direct load on a bank of its size \<open>n\<close> (4 for Logic4, 16 for Record16)
  raises nothing; the bank becomes the first \<open>min n (length values)\<close> values followed
  by the old positions from \<open>min n (length values)\<close> on, so excess values are dropped
  and trailing positions keep their contents; nothing else of the state changes. Five
  values on Logic4 leave the first four in the bank.
\<close>

theorem load_direct:
  "(length (logic4 st) = 4 \<longrightarrow>
      load_to_logic4 st values =
        (None, st\<lparr> logic4 := take (min 4 (length values)) values
                              @ drop (min 4 (length values)) (logic4 st) \<rparr>)) \<and>
   (length (record16 st) = 16 \<longrightarrow>
      load_to_record16 st values =
        (None, st\<lparr> record16 := take (min 16 (length values)) values
                                @ drop (min 16 (length values)) (record16 st) \<rparr>)) \<and>
   (length (logic4 st) = 4 \<longrightarrow>
      load_to_logic4 st [a, b, c, d, e] = (None, st\<lparr> logic4 := [a, b, c, d] \<rparr>))"
  by (simp add: load_to_logic4_ok load_to_record16_ok)

theorem load_direct_witness:
  "length (logic4 (VMState_init :: string VMState)) = 4 \<and>
   length (record16 (VMState_init :: string VMState)) = 16 \<and>
   load_to_logic4 (VMState_init :: string VMState) [VInt 1, VInt 2] =
     (None, VMState_init\<lparr> logic4 := [VInt 1, VInt 2] @ replicate 2 EMPTY \<rparr>) \<and>
   load_to_logic4 (VMState_init :: string VMState) [VInt 1, VInt 2, VInt 3, VInt 4, VInt 5] =
     (None, VMState_init\<lparr> logic4 := [VInt 1, VInt 2, VInt 3, VInt 4] \<rparr>) \<and>
   load_to_record16 (VMState_init :: string VMState) [VStr ''x''] =
     (None, VMState_init\<lparr> record16 := [VStr ''x''] @ replicate 15 EMPTY \<rparr>)"
proof -
  have c: "logic4 (VMState_init :: string VMState) = replicate 4 EMPTY"
    "record16 (VMState_init :: string VMState) = replicate 16 EMPTY"
    by (simp_all add: VMState_init_def)
  have l: "length (logic4 (VMState_init :: string VMState)) = 4"
    "length (record16 (VMState_init :: string VMState)) = 16"
    by (simp_all add: c)
  have 1: "load_to_logic4 (VMState_init :: string VMState) [VInt 1, VInt 2] =
     (None, VMState_init\<lparr> logic4 := [VInt 1, VInt 2] @ replicate 2 EMPTY \<rparr>)"
    using load_direct [of "VMState_init :: string VMState" "[VInt 1, VInt 2]" EMPTY EMPTY EMPTY EMPTY EMPTY] l
    by (simp add: c)
  have 2: "load_to_logic4 (VMState_init :: string VMState) [VInt 1, VInt 2, VInt 3, VInt 4, VInt 5] =
     (None, VMState_init\<lparr> logic4 := [VInt 1, VInt 2, VInt 3, VInt 4] \<rparr>)"
    using load_direct [of "VMState_init :: string VMState" "[]" "VInt 1" "VInt 2" "VInt 3" "VInt 4" "VInt 5"] l
    by simp
  have 3: "load_to_record16 (VMState_init :: string VMState) [VStr ''x''] =
     (None, VMState_init\<lparr> record16 := [VStr ''x''] @ replicate 15 EMPTY \<rparr>)"
    using load_direct [of "VMState_init :: string VMState" "[VStr ''x'']" EMPTY EMPTY EMPTY EMPTY EMPTY] l
    by (simp add: c)
  show ?thesis using l 1 2 3 by simp
qed

subsection \<open>Stack\<close>

text \<open>
  Claim C9. For every state and value, \<open>pop_stack\<close> after \<open>push_stack\<close> returns the
  value pushed and the state as it was before the push; on an empty stack \<open>pop_stack\<close>
  returns \<open>None\<close> and the unchanged state, raising nothing.
\<close>

theorem push_pop:
  "pop_stack (push_stack st x) = (Some x, st) \<and>
   (stack st = [] \<longrightarrow> pop_stack st = (None, st))"
  by (simp add: pop_stack_def push_stack_def)

theorem push_pop_witness:
  "stack (VMState_init :: string VMState) = [] \<and>
   pop_stack (VMState_init :: string VMState) = (None, VMState_init) \<and>
   pop_stack (push_stack (VMState_init :: string VMState) EMPTY) = (Some EMPTY, VMState_init)"
  using push_pop [of "VMState_init :: string VMState" EMPTY]
  by (simp add: VMState_init_def)

subsection \<open>Invariant\<close>

text \<open>
  Claim C10, as amended. In every state reached from \<open>VMState()\<close> by the core
  operations the four register banks have the lengths 4, 16, 64 and 256, and every key
  of the leaf store is a valid path text. There are 512 valid path texts, so the leaf
  store never holds more than 512 keys.
\<close>

theorem reachable_invariant:
  "reachable st \<Longrightarrow>
     bank_sizes_ok st \<and>
     dom (leaves st) \<subseteq> {s. is_valid_path s} \<and>
     card {s. is_valid_path s} = 512 \<and>
     card (dom (leaves st)) \<le> 512"
proof -
  assume r: "reachable st"
  have sub: "dom (leaves st) \<subseteq> {s. is_valid_path s}" using r by (rule reachable_keys)
  have "card (dom (leaves st)) \<le> card {s. is_valid_path s}"
    using sub finite_valid_paths by (rule card_mono[rotated])
  then show ?thesis using r sub by (simp add: reachable_banks card_valid_paths)
qed

theorem reachable_invariant_witness:
  "reachable (snd (zero_state (VMState_init :: string VMState))) \<and>
   bank_sizes_ok (snd (zero_state (VMState_init :: string VMState))) \<and>
   card (dom (leaves (snd (zero_state (VMState_init :: string VMState))))) = 512"
proof -
  have r: "reachable (snd (zero_state (VMState_init :: string VMState)))"
    by (intro r_zero r_init)
  have "card (dom (leaves (snd (zero_state (VMState_init :: string VMState))))) = 512"
    by (simp add: dom_zero_state_init card_valid_paths)
  then show ?thesis using reachable_invariant [OF r] r by simp
qed

text \<open>
  Claim C10 as stated bounds the number of leaves by 256; after \<open>zero_state\<close> on a
  fresh VM the leaf store holds 512 keys.
\<close>

theorem leaf_count_counterexample:
  "reachable (snd (zero_state (VMState_init :: string VMState))) \<and>
   \<not> card (dom (leaves (snd (zero_state (VMState_init :: string VMState))))) \<le> 256"
proof -
  have "reachable (snd (zero_state (VMState_init :: string VMState)))"
    by (intro r_zero r_init)
  moreover have "card (dom (leaves (snd (zero_state (VMState_init :: string VMState))))) = 512"
    by (simp add: dom_zero_state_init card_valid_paths)
  ultimately show ?thesis by simp
qed


end
